theory Spec2Isabelle
  imports Complex_Main "HOL-Library.Sublist"
begin

section \<open>Strings and numbers of the host language\<close>

text \<open>
  The program is JavaScript. Its strings are modelled as HOL strings and the model covers
  ASCII text: the white space of \<^verbatim>\<open>\s\<close> and of \<^verbatim>\<open>trim\<close> is tab, line feed,
  vertical tab, form feed, carriage return and space, and \<^verbatim>\<open>toLowerCase\<close> maps
  \<^verbatim>\<open>A-Z\<close> to \<^verbatim>\<open>a-z\<close> and leaves every other character alone. Numbers are
  exact rationals where the program computes with doubles. A thrown value is an
  \<^verbatim>\<open>Error\<close> with its message, and a call that may throw returns a sum with the
  error on the left.
\<close>

datatype js_error = Error (message: string)

definition isSpace :: "char \<Rightarrow> bool" where
  "isSpace c = (c \<in> set [CHR 0x09, CHR 0x0A, CHR 0x0B, CHR 0x0C, CHR 0x0D, CHR '' ''])"

definition toLowerChar :: "char \<Rightarrow> char" where
  "toLowerChar c =
     (case map_of (zip ''ABCDEFGHIJKLMNOPQRSTUVWXYZ'' ''abcdefghijklmnopqrstuvwxyz'') c of
        Some l \<Rightarrow> l
      | None \<Rightarrow> c)"

definition toLowerCase :: "string \<Rightarrow> string" where
  "toLowerCase s = map toLowerChar s"

definition trim :: "string \<Rightarrow> string" where
  "trim s = rev (dropWhile isSpace (rev (dropWhile isSpace s)))"

text \<open>\<^verbatim>\<open>t.includes(w)\<close>: \<open>w\<close> occurs in \<open>t\<close> as a contiguous run.\<close>

fun str_includes :: "string \<Rightarrow> string \<Rightarrow> bool" where
  "str_includes [] w = (w = [])"
| "str_includes (c # cs) w = (prefix w (c # cs) \<or> str_includes cs w)"

text \<open>
  \<^verbatim>\<open>text.split(/\s+/)\<close>: the text is cut at every maximal run of white space. A run at
  the very start leaves an empty first piece and a run at the very end an empty last one.
  The flag says whether the character before was white space; \<open>cur\<close> is the piece so far.
\<close>

fun split_from :: "bool \<Rightarrow> string \<Rightarrow> string \<Rightarrow> string list" where
  "split_from inRun cur [] = [cur]"
| "split_from inRun cur (c # cs) =
     (if isSpace c then
        (if inRun then split_from True [] cs else cur # split_from True [] cs)
      else split_from False (cur @ [c]) cs)"

definition split_ws :: "string \<Rightarrow> string list" where
  "split_ws text = split_from False [] text"

text \<open>\<^verbatim>\<open>Math.round\<close> rounds to the nearest integer, a half upwards.\<close>

definition Math_round :: "rat \<Rightarrow> rat" where
  "Math_round x = of_int \<lfloor>x + 1 / 2\<rfloor>"

text \<open>
  \<^verbatim>\<open>new RegExp(source, 'gi')\<close> belongs to the runtime and is a parameter of the model:
  it throws on an ill-formed source and otherwise yields the function that
  \<^verbatim>\<open>text.match(regex)\<close> computes, the list of all matches or \<^verbatim>\<open>null\<close>.
\<close>

type_synonym regexp = "string \<Rightarrow> string list option"

type_synonym regexp_ctor = "string \<Rightarrow> js_error + regexp"

text \<open>
  An instance of the runtime for closed evaluations. A source without syntax characters
  matches itself, ignoring case, leftmost first and without overlap; there this
  instance is the ECMAScript one. It rejects every other source, which ECMAScript does for
  the ill-formed ones only, such as \<^verbatim>\<open>(\<close>.
\<close>

fun match_literal :: "string \<Rightarrow> nat \<Rightarrow> string \<Rightarrow> string list" where
  "match_literal p k [] = []"
| "match_literal p k (c # cs) =
     (if 0 < k then match_literal p (k - 1) cs
      else if prefix (toLowerCase p) (toLowerCase (c # cs))
        then take (length p) (c # cs) # match_literal p (length p - 1) cs
      else match_literal p 0 cs)"

definition RegExp_literal :: regexp_ctor where
  "RegExp_literal p =
     (if p \<noteq> [] \<and> list_all (\<lambda>c. c \<notin> set (CHR 0x5C # ''^$.*+?()[]{}|'')) p
      then Inr (\<lambda>text. case match_literal p 0 text of [] \<Rightarrow> None | m # ms \<Rightarrow> Some (m # ms))
      else Inl (Error ''Invalid regular expression''))"

section \<open>Keyword scorer\<close>

record stop_word_match =
  word :: string
  count :: nat

record score_result =
  found :: "stop_word_match list"
  count :: nat
  score :: rat

text \<open>
  The body of the \<^verbatim>\<open>forEach\<close> callback of \<^verbatim>\<open>checkStopWords\<close>, for one stop
  word. The normalized word is looked for as a plain substring of the lowercased text, and
  then handed as it is, unescaped, to \<^verbatim>\<open>new RegExp\<close> to count its matches in the
  text; the regular expression is built before the word is looked up among those found.
\<close>

definition check_word ::
  "regexp_ctor \<Rightarrow> string \<Rightarrow> string \<Rightarrow> stop_word_match list \<Rightarrow> string
     \<Rightarrow> js_error + stop_word_match list" where
  "check_word RegExp text textLower fnd w =
     (let wordLower = trim (toLowerCase w) in
      if wordLower \<noteq> [] \<and> str_includes textLower wordLower then
        (case RegExp wordLower of
           Inl e \<Rightarrow> Inl e
         | Inr regex \<Rightarrow>
             (let matches = regex text;
                  cnt = (case matches of Some ms \<Rightarrow> length ms | None \<Rightarrow> 0)
              in if \<not> list_ex (\<lambda>item. word item = wordLower) fnd
                 then Inr (fnd @ [\<lparr>word = wordLower, stop_word_match.count = cnt\<rparr>])
                 else Inr fnd))
      else Inr fnd)"

fun forEach_word ::
  "regexp_ctor \<Rightarrow> string \<Rightarrow> string \<Rightarrow> stop_word_match list \<Rightarrow> string list
     \<Rightarrow> js_error + stop_word_match list" where
  "forEach_word RegExp text textLower fnd [] = Inr fnd"
| "forEach_word RegExp text textLower fnd (w # ws) =
     (case check_word RegExp text textLower fnd w of
        Inl e \<Rightarrow> Inl e
      | Inr fnd' \<Rightarrow> forEach_word RegExp text textLower fnd' ws)"

definition checkStopWords :: "regexp_ctor \<Rightarrow> string \<Rightarrow> string list \<Rightarrow> js_error + score_result" where
  "checkStopWords RegExp text stopWords =
     (if text = [] \<or> stopWords = [] then Inr \<lparr>found = [], count = 0, score = 0\<rparr>
      else
        (case forEach_word RegExp text (toLowerCase text) [] stopWords of
           Inl e \<Rightarrow> Inl e
         | Inr fnd \<Rightarrow>
             (let totalWords = length (split_ws text);
                  foundWordsCount = foldl (\<lambda>sum item. sum + stop_word_match.count item) 0 fnd;
                  sc = (if 0 < totalWords
                        then min 100 (of_nat foundWordsCount / of_nat totalWords * 100)
                        else 0)
              in Inr \<lparr>found = fnd, count = length fnd, score = Math_round (sc * 100) / 100\<rparr>)))"

text \<open>
  The spec's words for the denominator of the score: the whitespace-delimited tokens of a
  text are its maximal runs of characters that are not white space.
\<close>

fun tokens_from :: "string \<Rightarrow> string \<Rightarrow> string list" where
  "tokens_from cur [] = (if cur = [] then [] else [cur])"
| "tokens_from cur (c # cs) =
     (if isSpace c then (if cur = [] then tokens_from [] cs else cur # tokens_from [] cs)
      else tokens_from (cur @ [c]) cs)"

definition spec_tokens :: "string \<Rightarrow> string list" where
  "spec_tokens text = tokens_from [] text"


section \<open>Text and meta extraction\<close>

text \<open>
  \<^verbatim>\<open>try { body } catch (error) { handler }\<close>: the handler runs on what the body throws,
  and what the handler throws leaves the statement.
\<close>

definition try_catch :: "js_error + 'a \<Rightarrow> (js_error \<Rightarrow> js_error + 'a) \<Rightarrow> js_error + 'a" where
  "try_catch body handler = (case body of Inl e \<Rightarrow> handler e | Inr v \<Rightarrow> Inr v)"

text \<open>
  The runtime the analysis runs on. Beside the regular expressions it holds the two uses of
  the cheerio library: lines 10 to 28 of \<^verbatim>\<open>extractTextContent\<close> (import the module,
  load the document, remove the non-content elements, read the text of the body or else of
  the document) and lines 49 to 66 of \<^verbatim>\<open>extractMetaTags\<close> (the text of the title and
  the \<^verbatim>\<open>content\<close> attributes of the description and keywords meta elements, absent
  when \<^verbatim>\<open>attr\<close> gives \<^verbatim>\<open>undefined\<close>). Each either throws or gives its value.
\<close>

record runtime =
  regexp_gi :: regexp_ctor
  cheerio_text :: "string \<Rightarrow> js_error + string"
  cheerio_meta :: "string \<Rightarrow> js_error + string \<times> string option \<times> string option"

definition starts_ci :: "string \<Rightarrow> string \<Rightarrow> bool" where
  "starts_ci p text = prefix (toLowerCase p) (toLowerCase text)"

fun close_index :: "string \<Rightarrow> string \<Rightarrow> nat option" where
  "close_index tag [] = None"
| "close_index tag (c # cs) =
     (if starts_ci tag (c # cs) then Some 0 else map_option Suc (close_index tag cs))"

text \<open>
  The length of the match of \<^verbatim>\<open>/<name[^>]*>[\s\S]*?<\/name>/i\<close> at the start of a text:
  the opening word, everything up to the first \<^verbatim>\<open>>\<close>, and from there up to the first
  closing tag.
\<close>

definition block_length :: "string \<Rightarrow> string \<Rightarrow> nat option" where
  "block_length name text =
     (if starts_ci (CHR ''<'' # name) text then
        (let rest = drop (length name + 1) text;
             attrs = takeWhile (\<lambda>c. c \<noteq> CHR ''>'') rest
         in case drop (length attrs) rest of
              [] \<Rightarrow> None
            | gt # body \<Rightarrow>
                (case close_index (''</'' @ name @ ''>'') body of
                   None \<Rightarrow> None
                 | Some i \<Rightarrow> Some (length name + 1 + length attrs + 1 + i + (length name + 3))))
      else None)"

text \<open>\<^verbatim>\<open>.replace(/<name[^>]*>[\s\S]*?<\/name>/gi, '')\<close>; \<open>k\<close> characters of a match are still to skip.\<close>

fun strip_blocks :: "string \<Rightarrow> nat \<Rightarrow> string \<Rightarrow> string" where
  "strip_blocks name k [] = []"
| "strip_blocks name k (c # cs) =
     (if 0 < k then strip_blocks name (k - 1) cs
      else case block_length name (c # cs) of
             Some n \<Rightarrow> strip_blocks name (n - 1) cs
           | None \<Rightarrow> c # strip_blocks name 0 cs)"

text \<open>The length of the match of \<^verbatim>\<open>/<[^>]+>/\<close> at the start of a text.\<close>

definition tag_length :: "string \<Rightarrow> nat option" where
  "tag_length text =
     (case text of
        [] \<Rightarrow> None
      | c # rest \<Rightarrow>
          (if c = CHR ''<'' then
             (let inner = takeWhile (\<lambda>c. c \<noteq> CHR ''>'') rest
              in if inner \<noteq> [] \<and> drop (length inner) rest \<noteq> [] then Some (length inner + 2)
                 else None)
           else None))"

text \<open>\<^verbatim>\<open>.replace(/<[^>]+>/g, ' ')\<close>.\<close>

fun strip_tags :: "nat \<Rightarrow> string \<Rightarrow> string" where
  "strip_tags k [] = []"
| "strip_tags k (c # cs) =
     (if 0 < k then strip_tags (k - 1) cs
      else case tag_length (c # cs) of
             Some n \<Rightarrow> CHR '' '' # strip_tags (n - 1) cs
           | None \<Rightarrow> c # strip_tags 0 cs)"

text \<open>\<^verbatim>\<open>.replace(/\s+/g, ' ')\<close>; the flag says whether the character before was white space.\<close>

fun collapse_ws :: "bool \<Rightarrow> string \<Rightarrow> string" where
  "collapse_ws inRun [] = []"
| "collapse_ws inRun (c # cs) =
     (if isSpace c then (if inRun then collapse_ws True cs else CHR '' '' # collapse_ws True cs)
      else c # collapse_ws False cs)"

text \<open>The handler of \<^verbatim>\<open>extractTextContent\<close>, lines 34 to 40.\<close>

definition fallback_text :: "string \<Rightarrow> string" where
  "fallback_text html =
     toLowerCase (trim (collapse_ws False (strip_tags 0
       (strip_blocks ''style'' 0 (strip_blocks ''script'' 0 html)))))"

definition extractTextContent :: "runtime \<Rightarrow> string \<Rightarrow> js_error + string" where
  "extractTextContent rt html =
     try_catch
       (case cheerio_text rt html of
          Inl e \<Rightarrow> Inl e
        | Inr text \<Rightarrow> Inr (toLowerCase (trim (collapse_ws False text))))
       (\<lambda>error. Inr (fallback_text html))"

record meta_tags =
  title :: string
  description :: string
  keywords_meta :: string

definition extractMetaTags :: "runtime \<Rightarrow> string \<Rightarrow> js_error + meta_tags" where
  "extractMetaTags rt html =
     try_catch
       (case cheerio_meta rt html of
          Inl e \<Rightarrow> Inl e
        | Inr (t, d, k) \<Rightarrow>
            Inr \<lparr>title = trim t,
                 description = (case d of Some s \<Rightarrow> s | None \<Rightarrow> []),
                 keywords_meta = (case k of Some s \<Rightarrow> s | None \<Rightarrow> [])\<rparr>)
       (\<lambda>error. Inr \<lparr>title = [], description = [], keywords_meta = []\<rparr>)"

section \<open>Spam analysis of one document\<close>

record html_analysis =
  textLength :: nat
  metaTags :: meta_tags
  stopWords :: score_result
  isSpam :: bool
  spamScore :: rat

text \<open>\<^verbatim>\<open>parts.join(' ')\<close>.\<close>

fun join_space :: "string list \<Rightarrow> string" where
  "join_space [] = []"
| "join_space [x] = x"
| "join_space (x # y # ys) = x @ CHR '' '' # join_space (y # ys)"

definition analyzeHtmlForSpam :: "runtime \<Rightarrow> string \<Rightarrow> string list \<Rightarrow> js_error + html_analysis" where
  "analyzeHtmlForSpam rt html stopWordList =
     (case extractTextContent rt html of
        Inl e \<Rightarrow> Inl e
      | Inr textContent \<Rightarrow>
     (case extractMetaTags rt html of
        Inl e \<Rightarrow> Inl e
      | Inr tags \<Rightarrow>
     (let allText = join_space (filter (\<lambda>s. s \<noteq> [])
                      [textContent, title tags, description tags, keywords_meta tags])
      in case checkStopWords (regexp_gi rt) allText stopWordList of
           Inl e \<Rightarrow> Inl e
         | Inr stopWordsCheck \<Rightarrow>
             Inr \<lparr>textLength = length textContent,
                  metaTags = tags,
                  stopWords = stopWordsCheck,
                  isSpam = (0 < count stopWordsCheck \<or> 5 < score stopWordsCheck),
                  spamScore = score stopWordsCheck\<rparr>)))"

section \<open>Domain analyzer\<close>

text \<open>
  The snapshot client is the adapter's collaborator and a parameter of the model. Its two
  calls go to the network: each takes the state of the world, of any type \<open>'w\<close>, and
  returns the next one beside what it yields or throws. \<^verbatim>\<open>getSnapshotHtml\<close> yields
  the \<^verbatim>\<open>html\<close> of its result. The progress callback is left at its default
  \<^verbatim>\<open>null\<close>, and the pauses between requests are not modelled.
\<close>

record snapshot =
  timestamp :: string
  originalUrl :: string

record 'w wayback_client =
  getSnapshots :: "string \<Rightarrow> nat \<Rightarrow> 'w \<Rightarrow> (js_error + snapshot list) \<times> 'w"
  getSnapshotHtml :: "snapshot \<Rightarrow> 'w \<Rightarrow> (js_error + string) \<times> 'w"

text \<open>
  A result is an object literal, and the three literals of the adapter differ in their
  properties: an object is the list of its properties in the order written, and reading a
  property it does not have gives \<^verbatim>\<open>undefined\<close>, here \<open>None\<close>.
\<close>

datatype js_value = Null | Bool bool | Num rat | Str string | Matches "stop_word_match list"

type_synonym js_object = "(string \<times> js_value) list"

definition get_prop :: "js_object \<Rightarrow> string \<Rightarrow> js_value option" where
  "get_prop obj name = map_of obj name"

text \<open>The variables of the loop over the snapshots; the \<^verbatim>\<open>Map\<close> keeps insertion order.\<close>

record spam_totals =
  spamSnapshots :: nat
  totalSpamScore :: rat
  allFoundStopWords :: "(string \<times> nat) list"
  firstSpamDate :: "string option"

fun map_set :: "(string \<times> nat) list \<Rightarrow> string \<Rightarrow> nat \<Rightarrow> (string \<times> nat) list" where
  "map_set [] k v = [(k, v)]"
| "map_set ((k', v') # m) k v = (if k' = k then (k, v) # m else (k', v') # map_set m k v)"

text \<open>\<^verbatim>\<open>m.get(w) || 0\<close>.\<close>

definition count_of :: "(string \<times> nat) list \<Rightarrow> string \<Rightarrow> nat" where
  "count_of m w = (case map_of m w of Some c \<Rightarrow> c | None \<Rightarrow> 0)"

definition track_stop_word :: "(string \<times> nat) list \<Rightarrow> stop_word_match \<Rightarrow> (string \<times> nat) list" where
  "track_stop_word m item =
     (let current = count_of m (word item)
      in map_set m (word item) (current + stop_word_match.count item))"

text \<open>
  The body of the loop, lines 109 to 140. Whatever the fetch or the analysis throws is
  caught and the snapshot is passed over. \<^verbatim>\<open>!firstSpamDate\<close> holds of \<^verbatim>\<open>null\<close>
  and of the empty string.
\<close>

definition check_snapshot ::
  "runtime \<Rightarrow> 'w wayback_client \<Rightarrow> string list \<Rightarrow> spam_totals \<Rightarrow> snapshot \<Rightarrow> 'w
     \<Rightarrow> spam_totals \<times> 'w" where
  "check_snapshot rt client stopWordList acc snap w =
     (case getSnapshotHtml client snap w of
        (Inl e, w') \<Rightarrow> (acc, w')
      | (Inr html, w') \<Rightarrow>
          (case analyzeHtmlForSpam rt html stopWordList of
             Inl e \<Rightarrow> (acc, w')
           | Inr analysis \<Rightarrow>
               (if isSpam analysis then
                  (acc\<lparr>spamSnapshots := spamSnapshots acc + 1,
                       totalSpamScore := totalSpamScore acc + spamScore analysis,
                       allFoundStopWords :=
                         foldl track_stop_word (allFoundStopWords acc) (found (stopWords analysis)),
                       firstSpamDate :=
                         (if firstSpamDate acc = None \<or> firstSpamDate acc = Some []
                          then Some (timestamp snap) else firstSpamDate acc)\<rparr>, w')
                else (acc, w'))))"

fun for_snapshots ::
  "runtime \<Rightarrow> 'w wayback_client \<Rightarrow> string list \<Rightarrow> spam_totals \<Rightarrow> snapshot list \<Rightarrow> 'w
     \<Rightarrow> spam_totals \<times> 'w" where
  "for_snapshots rt client stopWordList acc [] w = (acc, w)"
| "for_snapshots rt client stopWordList acc (snap # snaps) w =
     (case check_snapshot rt client stopWordList acc snap w of
        (acc', w') \<Rightarrow> for_snapshots rt client stopWordList acc' snaps w')"

text \<open>
  \<^verbatim>\<open>.sort((a, b) => b.count - a.count)\<close>: a stable sort, the larger count first.
\<close>

fun insert_desc :: "stop_word_match \<Rightarrow> stop_word_match list \<Rightarrow> stop_word_match list" where
  "insert_desc x [] = [x]"
| "insert_desc x (y # ys) =
     (if stop_word_match.count y \<le> stop_word_match.count x then x # y # ys
      else y # insert_desc x ys)"

definition sort_desc :: "stop_word_match list \<Rightarrow> stop_word_match list" where
  "sort_desc xs = foldr insert_desc xs []"

definition no_snapshots_result :: "string \<Rightarrow> js_object" where
  "no_snapshots_result domain =
     [(''domain'', Str domain),
      (''snapshotsChecked'', Num 0),
      (''spamDetected'', Bool False),
      (''spamScore'', Num 0),
      (''totalStopWordsFound'', Num 0),
      (''stopWordsFound'', Matches []),
      (''firstSpamDate'', Null),
      (''status'', Str ''no_snapshots'')]"

text \<open>Lines 143 to 171: the result from the variables of the loop.\<close>

definition analysis_result :: "string \<Rightarrow> nat \<Rightarrow> spam_totals \<Rightarrow> js_object" where
  "analysis_result domain n acc =
     (let spamPercentage = of_nat (spamSnapshots acc) / of_nat n * 100;
          avgSpamScore = (if 0 < spamSnapshots acc
                          then totalSpamScore acc / of_nat (spamSnapshots acc) else 0);
          stopWordsFound = sort_desc
            (map (\<lambda>(w, c). \<lparr>word = w, stop_word_match.count = c\<rparr>) (allFoundStopWords acc));
          status = (if 50 \<le> spamPercentage then ''spam''
                    else if 0 < spamPercentage then ''suspicious''
                    else ''clean'')
      in [(''domain'', Str domain),
          (''snapshotsChecked'', Num (of_nat n)),
          (''spamSnapshots'', Num (of_nat (spamSnapshots acc))),
          (''spamPercentage'', Num (Math_round (spamPercentage * 100) / 100)),
          (''avgSpamScore'', Num (Math_round (avgSpamScore * 100) / 100)),
          (''spamDetected'', Bool (0 < spamSnapshots acc)),
          (''totalStopWordsFound'', Num (of_nat (length (allFoundStopWords acc)))),
          (''stopWordsFound'', Matches stopWordsFound),
          (''firstSpamDate'', (case firstSpamDate acc of Some d \<Rightarrow> Str d | None \<Rightarrow> Null)),
          (''status'', Str status)])"

definition analyzeDomainForSpam ::
  "runtime \<Rightarrow> 'w wayback_client \<Rightarrow> string \<Rightarrow> string list \<Rightarrow> nat \<Rightarrow> 'w
     \<Rightarrow> (js_error + js_object) \<times> 'w" where
  "analyzeDomainForSpam rt client domain stopWordList maxSnapshots w =
     (case getSnapshots client domain maxSnapshots w of
        (Inl error, w') \<Rightarrow> (Inl (Error (''Domain analysis failed: '' @ message error)), w')
      | (Inr snapshots, w') \<Rightarrow>
          (if length snapshots = 0 then (Inr (no_snapshots_result domain), w')
           else
             (case for_snapshots rt client stopWordList
                     \<lparr>spamSnapshots = 0, totalSpamScore = 0,
                      allFoundStopWords = [], firstSpamDate = None\<rparr> snapshots w' of
                (acc, w'') \<Rightarrow> (Inr (analysis_result domain (length snapshots) acc), w''))))"

section \<open>Batch analyzer\<close>




section \<open>The run of the domain analyzer, snapshot by snapshot\<close>

text \<open>
  What the loop meets at each snapshot, in order: the snapshot with what its fetch and
  analysis threw or gave. The snapshots flagged spam are those whose analysis returned with
  \<^verbatim>\<open>isSpam\<close> set.
\<close>

fun snapshot_analyses ::
  "runtime \<Rightarrow> 'w wayback_client \<Rightarrow> string list \<Rightarrow> snapshot list \<Rightarrow> 'w
     \<Rightarrow> (snapshot \<times> (js_error + html_analysis)) list" where
  "snapshot_analyses rt client stopWordList [] w = []"
| "snapshot_analyses rt client stopWordList (snap # snaps) w =
     (case getSnapshotHtml client snap w of
        (Inl e, w') \<Rightarrow> (snap, Inl e) # snapshot_analyses rt client stopWordList snaps w'
      | (Inr html, w') \<Rightarrow>
          (snap, analyzeHtmlForSpam rt html stopWordList)
            # snapshot_analyses rt client stopWordList snaps w')"

definition flagged_spam ::
  "(snapshot \<times> (js_error + html_analysis)) list \<Rightarrow> html_analysis list" where
  "flagged_spam outcomes =
     List.map_filter
       (\<lambda>(snap, r). case r of Inl e \<Rightarrow> None | Inr a \<Rightarrow> if isSpam a then Some a else None)
       outcomes"


section \<open>A runtime and a client for closed evaluations\<close>

text \<open>
  In this runtime the cheerio module cannot be loaded, so both extractors take their
  handlers. The client knows one domain that is down, one without snapshots, and gives
  every other domain up to five snapshots: a clean page, one whose fetch times out, and
  three that mention the stop words. Its world counts the requests made.
\<close>

definition stub_runtime :: runtime where
  "stub_runtime =
     \<lparr>regexp_gi = RegExp_literal,
      cheerio_text = (\<lambda>html. Inl (Error ''Cannot load cheerio module'')),
      cheerio_meta = (\<lambda>html. Inl (Error ''Cannot load cheerio module''))\<rparr>"

definition stub_client :: "nat wayback_client" where
  "stub_client =
     \<lparr>getSnapshots = (\<lambda>target limit w.
        (if target = ''down.example'' then Inl (Error ''HTTP 503'')
         else if target = ''new.example'' then Inr []
         else Inr (map (\<lambda>t. \<lparr>timestamp = t, originalUrl = target\<rparr>)
                    (take limit [''2019'', ''2020'', ''2021'', ''2022'', ''2023''])),
         Suc w)),
      getSnapshotHtml = (\<lambda>snap w.
        (if timestamp snap = ''2019'' then Inr ''<p>Welcome</p>''
         else if timestamp snap = ''2020'' then Inl (Error ''timeout'')
         else if timestamp snap = ''2021'' then Inr ''<p>Buy now</p>''
         else if timestamp snap = ''2022'' then Inr ''<b>buy</b> casino buy''
         else Inr ''<script>x()</script>BUY'',
         Suc w))\<rparr>"

section \<open>Properties of the string functions\<close>





section \<open>Properties of the keyword scorer\<close>

lemma check_word_cases:
  "check_word RegExp text tx fnd w = Inr fnd' \<Longrightarrow>
     fnd' = fnd \<or>
     (\<exists>c. fnd' = fnd @ [\<lparr>word = trim (toLowerCase w), stop_word_match.count = c\<rparr>]
        \<and> trim (toLowerCase w) \<notin> word ` set fnd)"
  by (auto simp: check_word_def Let_def list_ex_iff split: if_splits sum.splits)

lemma check_word_words:
  "check_word RegExp text tx fnd w = Inr fnd' \<Longrightarrow>
     word ` set fnd' = word ` set fnd \<union>
       (if trim (toLowerCase w) \<noteq> [] \<and> str_includes tx (trim (toLowerCase w))
        then {trim (toLowerCase w)} else {})"
  by (auto simp: check_word_def Let_def list_ex_iff image_iff split: if_splits sum.splits)
     metis

lemma check_word_raises:
  "check_word RegExp text tx fnd w = Inl e \<Longrightarrow> RegExp (trim (toLowerCase w)) = Inl e"
  by (auto simp: check_word_def Let_def split: if_splits sum.splits)

lemma check_word_returns:
  "RegExp (trim (toLowerCase w)) = Inr rx \<Longrightarrow> \<exists>fnd'. check_word RegExp text tx fnd w = Inr fnd'"
  by (auto simp: check_word_def Let_def split: if_splits sum.splits)

lemma forEach_word_words:
  "forEach_word RegExp text tx fnd ws = Inr fnd' \<Longrightarrow>
     word ` set fnd' = word ` set fnd \<union>
       {trim (toLowerCase w) | w. w \<in> set ws \<and> trim (toLowerCase w) \<noteq> []
           \<and> str_includes tx (trim (toLowerCase w))}"
proof (induction ws arbitrary: fnd)
  case Nil
  then show ?case by simp
next
  case (Cons w ws)
  from Cons.prems obtain f1 where f1: "check_word RegExp text tx fnd w = Inr f1"
    and rest: "forEach_word RegExp text tx f1 ws = Inr fnd'"
    by (auto split: sum.splits)
  show ?case
    unfolding Cons.IH [OF rest] check_word_words [OF f1] by auto
qed

lemma forEach_word_distinct:
  "forEach_word RegExp text tx fnd ws = Inr fnd' \<Longrightarrow> distinct (map word fnd)
     \<Longrightarrow> distinct (map word fnd')"
proof (induction ws arbitrary: fnd)
  case Nil
  then show ?case by simp
next
  case (Cons w ws)
  from Cons.prems obtain f1 where f1: "check_word RegExp text tx fnd w = Inr f1"
    and rest: "forEach_word RegExp text tx f1 ws = Inr fnd'"
    by (auto split: sum.splits)
  from check_word_cases [OF f1] Cons.prems(2) have "distinct (map word f1)" by auto
  with Cons.IH [OF rest] show ?case .
qed

lemma forEach_word_length:
  "forEach_word RegExp text tx fnd ws = Inr fnd' \<Longrightarrow> length fnd' \<le> length fnd + length ws"
proof (induction ws arbitrary: fnd)
  case Nil
  then show ?case by simp
next
  case (Cons w ws)
  from Cons.prems obtain f1 where f1: "check_word RegExp text tx fnd w = Inr f1"
    and rest: "forEach_word RegExp text tx f1 ws = Inr fnd'"
    by (auto split: sum.splits)
  from check_word_cases [OF f1] have "length f1 \<le> length fnd + 1" by auto
  with Cons.IH [OF rest] show ?case by simp
qed

lemma forEach_word_raises:
  "forEach_word RegExp text tx fnd ws = Inl e \<Longrightarrow>
     \<exists>w \<in> set ws. RegExp (trim (toLowerCase w)) = Inl e"
proof (induction ws arbitrary: fnd)
  case Nil
  then show ?case by simp
next
  case (Cons w ws)
  then show ?case
    by (auto split: sum.splits dest: check_word_raises)
qed

lemma forEach_word_returns:
  "\<forall>w \<in> set ws. \<exists>rx. RegExp (trim (toLowerCase w)) = Inr rx \<Longrightarrow>
     \<exists>fnd'. forEach_word RegExp text tx fnd ws = Inr fnd'"
proof (induction ws arbitrary: fnd)
  case Nil
  then show ?case by simp
next
  case (Cons w ws)
  then obtain rx where "RegExp (trim (toLowerCase w)) = Inr rx" by auto
  then obtain f1 where "check_word RegExp text tx fnd w = Inr f1"
    using check_word_returns [where RegExp = RegExp and w = w] by blast
  with Cons show ?case by auto
qed

lemma Math_round_bounds:
  assumes "0 \<le> x" and "x \<le> 100"
  shows "0 \<le> Math_round (x * 100) / 100" and "Math_round (x * 100) / 100 \<le> 100"
proof -
  have "0 \<le> \<lfloor>x * 100 + 1 / 2\<rfloor>" using assms by simp
  then show "0 \<le> Math_round (x * 100) / 100" by (simp add: Math_round_def)
  have "x * 100 + 1 / 2 < 10001" using assms by simp
  then have "\<lfloor>x * 100 + 1 / 2\<rfloor> \<le> 10000" by (simp add: floor_le_iff)
  then have "(of_int \<lfloor>x * 100 + 1 / 2\<rfloor> :: rat) \<le> 10000" by linarith
  then show "Math_round (x * 100) / 100 \<le> 100" by (simp add: Math_round_def)
qed

lemma foldl_count_sum:
  "foldl (\<lambda>sum item. sum + stop_word_match.count item) a fnd =
     a + sum_list (map stop_word_match.count fnd)"
  by (induction fnd arbitrary: a) auto

lemma split_from_nonempty: "split_from b cur t \<noteq> []"
  by (induction b cur t rule: split_from.induct) auto

lemma split_ws_length_pos: "0 < length (split_ws t)"
  by (simp add: split_ws_def split_from_nonempty)

lemma Math_round_0: "Math_round 0 = 0"
proof -
  have "\<lfloor>1 / 2 :: rat\<rfloor> = 0" by (rule floor_unique) simp_all
  then show ?thesis by (simp add: Math_round_def)
qed

lemma checkStopWords_Inr:
  assumes "checkStopWords RegExp T L = Inr r"
  shows "(T = [] \<or> L = []) \<and> r = \<lparr>found = [], count = 0, score = 0\<rparr> \<or>
         T \<noteq> [] \<and> L \<noteq> [] \<and> forEach_word RegExp T (toLowerCase T) [] L = Inr (found r)
           \<and> count r = length (found r)
           \<and> score r = Math_round (min 100 (of_nat (sum_list (map stop_word_match.count (found r)))
                                        / of_nat (length (split_ws T)) * 100) * 100) / 100"
  using assms
  by (auto simp: checkStopWords_def Let_def foldl_count_sum split_ws_length_pos
           split: if_splits sum.splits)

lemma checkStopWords_returns:
  assumes "\<forall>v \<in> set L. \<exists>rx. RegExp (trim (toLowerCase v)) = Inr rx"
  shows "\<exists>r. checkStopWords RegExp T L = Inr r"
proof -
  from forEach_word_returns [OF assms] obtain fnd
    where "forEach_word RegExp T (toLowerCase T) [] L = Inr fnd" by blast
  then show ?thesis by (simp add: checkStopWords_def Let_def)
qed

lemma checkStopWords_raises:
  "checkStopWords RegExp T L = Inl e \<Longrightarrow> \<exists>v \<in> set L. RegExp (trim (toLowerCase v)) = Inl e"
  by (auto simp: checkStopWords_def Let_def split: if_splits sum.splits
           dest: forEach_word_raises)

text \<open>A stop word that is an ill-formed regular expression makes the scorer throw.\<close>

lemma checkStopWords_unescaped_word:
  "checkStopWords RegExp_literal ''buy (now)'' [''(''] = Inl (Error ''Invalid regular expression'')"
  by code_simp

lemma checkStopWords_score_bounds:
  assumes "checkStopWords RegExp T L = Inr r"
  shows "0 \<le> score r \<and> score r \<le> 100"
proof -
  from checkStopWords_Inr [OF assms] show ?thesis
  proof
    assume "(T = [] \<or> L = []) \<and> r = \<lparr>found = [], count = 0, score = 0\<rparr>"
    then show ?thesis by auto
  next
    assume a: "T \<noteq> [] \<and> L \<noteq> [] \<and> forEach_word RegExp T (toLowerCase T) [] L = Inr (found r)
           \<and> count r = length (found r)
           \<and> score r = Math_round (min 100 (of_nat (sum_list (map stop_word_match.count (found r)))
                                        / of_nat (length (split_ws T)) * 100) * 100) / 100"
    define x :: rat where "x = min 100 (of_nat (sum_list (map stop_word_match.count (found r)))
                                        / of_nat (length (split_ws T)) * 100)"
    have "0 \<le> x" "x \<le> 100" by (simp_all add: x_def)
    from Math_round_bounds [OF this] a show ?thesis by (simp add: x_def)
  qed
qed

lemma checkStopWords_no_match_no_score:
  assumes "checkStopWords RegExp T L = Inr r" and "found r = []"
  shows "score r = 0"
  using checkStopWords_Inr [OF assms(1)] assms(2) by (auto simp: Math_round_0)


text \<open>
  Claim C7. In every result of the scorer \<^verbatim>\<open>count\<close> is the number of found entries
  and at most the length of the stop-word list, the found words are distinct normalized
  stop words, and the score lies between 0 and 100. The scorer returns a result whenever
  the runtime accepts the normalized stop words as regular expressions.
\<close>

theorem checkStopWords_count_score_bounds:
  "(\<forall>r. checkStopWords RegExp T L = Inr r \<longrightarrow>
      count r \<le> length L \<and> count r = length (found r) \<and> distinct (map word (found r))
      \<and> word ` set (found r) \<subseteq> (\<lambda>v. trim (toLowerCase v)) ` set L
      \<and> 0 \<le> score r \<and> score r \<le> 100)
   \<and> ((\<forall>v \<in> set L. \<exists>rx. RegExp (trim (toLowerCase v)) = Inr rx)
        \<longrightarrow> (\<exists>r. checkStopWords RegExp T L = Inr r))"
proof (intro conjI allI impI)
  fix r
  assume r: "checkStopWords RegExp T L = Inr r"
  from checkStopWords_Inr [OF r]
  have fe: "found r = [] \<and> count r = 0
            \<or> forEach_word RegExp T (toLowerCase T) [] L = Inr (found r) \<and> count r = length (found r)"
    by auto
  from fe show "count r \<le> length L" by (auto dest: forEach_word_length)
  from fe show "count r = length (found r)" by auto
  from fe show "distinct (map word (found r))" by (auto dest: forEach_word_distinct)
  from fe show "word ` set (found r) \<subseteq> (\<lambda>v. trim (toLowerCase v)) ` set L"
    by (auto dest!: forEach_word_words)
  from checkStopWords_score_bounds [OF r] show "0 \<le> score r" "score r \<le> 100" by auto
next
  assume "\<forall>v \<in> set L. \<exists>rx. RegExp (trim (toLowerCase v)) = Inr rx"
  then show "\<exists>r. checkStopWords RegExp T L = Inr r" by (rule checkStopWords_returns)
qed



lemma checkStopWords_repeated:
  "checkStopWords RegExp_literal ''BUY now buy'' [''Buy '', ''buy'', ''x''] =
     Inr \<lparr>found = [\<lparr>word = ''buy'', stop_word_match.count = 2\<rparr>], count = 1,
          score = 6667 / 100\<rparr>"
  by code_simp

theorem checkStopWords_count_score_bounds_witness:
  "\<exists>r. checkStopWords RegExp_literal ''BUY now buy'' [''Buy '', ''buy'', ''x''] = Inr r
       \<and> count r = 1 \<and> count r \<le> length [''Buy '', ''buy'', ''x'']
       \<and> 0 \<le> score r \<and> score r \<le> 100"
  using checkStopWords_count_score_bounds
          [of RegExp_literal "''BUY now buy''" "[''Buy '', ''buy'', ''x'']"]
  by (simp add: checkStopWords_repeated)

lemma split_tokens_length:
  "length (split_from True [] t)
     = length (tokens_from [] t) + (if t = [] \<or> isSpace (last t) then 1 else 0)"
  "cur \<noteq> [] \<Longrightarrow> length (split_from False cur t)
     = length (tokens_from cur t) + (if t \<noteq> [] \<and> isSpace (last t) then 1 else 0)"
proof (induction t arbitrary: cur)
  case Nil
  { case 1 show ?case by simp }
  { case 2 then show ?case by simp }
next
  case (Cons c cs)
  { case 1 show ?case using Cons.IH(1) Cons.IH(2) [of "[c]"] by auto }
  { case 2 then show ?case using Cons.IH(1) Cons.IH(2) [of "cur @ [c]"] by auto }
qed

lemma split_ws_tokens_trimmed:
  assumes "t \<noteq> []" and "\<not> isSpace (hd t)" and "\<not> isSpace (last t)"
  shows "length (split_ws t) = length (spec_tokens t)"
proof -
  from assms(1) obtain c cs where t: "t = c # cs" by (cases t) auto
  with assms have c: "\<not> isSpace c" and l: "cs \<noteq> [] \<Longrightarrow> \<not> isSpace (last cs)" by auto
  have "length (split_from False [c] cs) = length (tokens_from [c] cs)"
    using split_tokens_length(2) [of "[c]" cs] l by auto
  with c t show ?thesis by (simp add: split_ws_def spec_tokens_def)
qed

text \<open>
  Claim C1. The score is the rounded quotient of the found occurrences by
  \<^verbatim>\<open>text.split(/\s+/).length\<close> (lemma \<open>checkStopWords_Inr\<close>). That length is the
  number of whitespace-delimited tokens when the text neither starts nor ends with white
  space (lemma \<open>split_ws_tokens_trimmed\<close>), and counts an empty piece more at either
  end otherwise: for the text \<^verbatim>\<open>" buy"\<close> and the stop word \<^verbatim>\<open>buy\<close> the scorer
  divides one occurrence by two pieces and returns 50, where one occurrence in one token
  is 100.
\<close>

theorem checkStopWords_leading_space:
  "checkStopWords RegExp_literal '' buy'' [''buy'']
     = Inr \<lparr>found = [\<lparr>word = ''buy'', stop_word_match.count = 1\<rparr>], count = 1, score = 50\<rparr>
   \<and> split_ws '' buy'' = [[], ''buy'']
   \<and> spec_tokens '' buy'' = [''buy'']
   \<and> Math_round (min 100 (1 / of_nat (length (spec_tokens '' buy'')) * 100) * 100) / 100 = 100"
  by code_simp

section \<open>Properties of the extractors and of the analysis of one document\<close>




lemma extractMetaTags_returns: "\<exists>tags. extractMetaTags rt html = Inr tags"
  by (cases "cheerio_meta rt html")
     (auto simp: extractMetaTags_def try_catch_def split: prod.splits)

lemma analyzeHtmlForSpam_Inr:
  assumes "analyzeHtmlForSpam rt html L = Inr a"
  shows "\<exists>allText. checkStopWords (regexp_gi rt) allText L = Inr (stopWords a)
           \<and> isSpam a = (0 < count (stopWords a) \<or> 5 < score (stopWords a))
           \<and> spamScore a = score (stopWords a)"
  using assms
  by (auto simp: analyzeHtmlForSpam_def Let_def split: sum.splits)

lemma analyzeHtmlForSpam_returns:
  assumes "\<forall>v \<in> set L. \<exists>rx. regexp_gi rt (trim (toLowerCase v)) = Inr rx"
  shows "\<exists>a. analyzeHtmlForSpam rt html L = Inr a"
proof -
  obtain t where t: "extractTextContent rt html = Inr t"
    by (cases "cheerio_text rt html") (auto simp: extractTextContent_def try_catch_def)
  obtain tags where m: "extractMetaTags rt html = Inr tags"
    using extractMetaTags_returns by blast
  from checkStopWords_returns [OF assms]
  obtain r where "checkStopWords (regexp_gi rt)
      (join_space (filter (\<lambda>s. s \<noteq> []) [t, title tags, description tags, keywords_meta tags])) L = Inr r"
    by blast
  with t m show ?thesis by (simp add: analyzeHtmlForSpam_def Let_def)
qed

text \<open>
  Claim C9. In every analysis of a document \<^verbatim>\<open>isSpam\<close> holds exactly when
  \<^verbatim>\<open>stopWords.count\<close> is positive: a positive score, and so a score above 5, needs a
  found stop word. The analysis returns whenever the runtime accepts the normalized stop
  words as regular expressions.
\<close>

theorem analyzeHtmlForSpam_isSpam_iff_count:
  "(\<forall>a. analyzeHtmlForSpam rt html L = Inr a \<longrightarrow>
      isSpam a = (0 < count (stopWords a))
      \<and> (0 < score (stopWords a) \<longrightarrow> 0 < count (stopWords a)))
   \<and> ((\<forall>v \<in> set L. \<exists>rx. regexp_gi rt (trim (toLowerCase v)) = Inr rx)
        \<longrightarrow> (\<exists>a. analyzeHtmlForSpam rt html L = Inr a))"
proof (intro conjI allI impI)
  fix a
  assume a: "analyzeHtmlForSpam rt html L = Inr a"
  from analyzeHtmlForSpam_Inr [OF a] obtain allText
    where r: "checkStopWords (regexp_gi rt) allText L = Inr (stopWords a)"
      and s: "isSpam a = (0 < count (stopWords a) \<or> 5 < score (stopWords a))"
    by blast
  have pos: "0 < count (stopWords a)" if "0 < score (stopWords a)"
  proof (rule ccontr)
    assume "\<not> 0 < count (stopWords a)"
    with checkStopWords_Inr [OF r] have "found (stopWords a) = []" by auto
    from checkStopWords_no_match_no_score [OF r this] that show False by simp
  qed
  then show "0 < score (stopWords a) \<Longrightarrow> 0 < count (stopWords a)" .
  from pos s show "isSpam a = (0 < count (stopWords a))" by auto
next
  assume "\<forall>v \<in> set L. \<exists>rx. regexp_gi rt (trim (toLowerCase v)) = Inr rx"
  then show "\<exists>a. analyzeHtmlForSpam rt html L = Inr a" by (rule analyzeHtmlForSpam_returns)
qed

lemma analyzeHtmlForSpam_example:
  "analyzeHtmlForSpam stub_runtime ''<p>Buy now</p>'' [''buy'', ''casino''] =
     Inr \<lparr>textLength = 7,
          metaTags = \<lparr>title = [], description = [], keywords_meta = []\<rparr>,
          stopWords = \<lparr>found = [\<lparr>word = ''buy'', stop_word_match.count = 1\<rparr>], count = 1, score = 50\<rparr>,
          isSpam = True, spamScore = 50\<rparr>"
  by code_simp

theorem analyzeHtmlForSpam_isSpam_iff_count_witness:
  "\<exists>a. analyzeHtmlForSpam stub_runtime ''<p>Buy now</p>'' [''buy'', ''casino''] = Inr a
      \<and> isSpam a \<and> 0 < count (stopWords a) \<and> 0 < score (stopWords a)"
  using analyzeHtmlForSpam_isSpam_iff_count
          [of stub_runtime "''<p>Buy now</p>''" "[''buy'', ''casino'']"]
  by (simp add: analyzeHtmlForSpam_example)

section \<open>Properties of the domain analyzer\<close>

lemma map_set_keys: "fst ` set (map_set m k v) = insert k (fst ` set m)"
proof (induction m)
  case Nil
  show ?case by simp
next
  case (Cons p m)
  obtain k' v' where p: "p = (k', v')" by (cases p)
  show ?case unfolding p using Cons.IH by (cases "k' = k") auto
qed

lemma map_set_distinct: "distinct (map fst m) \<Longrightarrow> distinct (map fst (map_set m k v))"
  by (induction m) (auto simp: map_set_keys)



lemma track_stop_word_distinct:
  "distinct (map fst m) \<Longrightarrow> distinct (map fst (track_stop_word m item))"
  by (simp add: track_stop_word_def map_set_distinct)



lemma foldl_track_distinct:
  "distinct (map fst m) \<Longrightarrow> distinct (map fst (foldl track_stop_word m items))"
  by (induction items arbitrary: m) (auto simp: track_stop_word_distinct)


lemma set_insert_desc: "set (insert_desc x xs) = insert x (set xs)"
  by (induction xs) auto

lemma length_insert_desc: "length (insert_desc x xs) = Suc (length xs)"
  by (induction xs) auto

lemma distinct_insert_desc:
  "distinct (map word (insert_desc x xs)) = (word x \<notin> word ` set xs \<and> distinct (map word xs))"
  by (induction xs) (auto simp: set_insert_desc)


lemma set_sort_desc: "set (sort_desc xs) = set xs"
  unfolding sort_desc_def by (induction xs) (auto simp: set_insert_desc)

lemma length_sort_desc: "length (sort_desc xs) = length xs"
  unfolding sort_desc_def by (induction xs) (auto simp: length_insert_desc)

lemma distinct_sort_desc: "distinct (map word (sort_desc xs)) = distinct (map word xs)"
  unfolding sort_desc_def
  by (induction xs) (auto simp: distinct_insert_desc set_sort_desc [unfolded sort_desc_def])


lemma check_snapshot_totals:
  assumes "check_snapshot rt client sw acc snap w = (acc', w')"
  shows "\<exists>out. (out, w') = (case getSnapshotHtml client snap w of
                     (Inl e, w1) \<Rightarrow> (Inl e, w1)
                   | (Inr html, w1) \<Rightarrow> (analyzeHtmlForSpam rt html sw, w1))
          \<and> (let fl = flagged_spam [(snap, out)] in
              spamSnapshots acc' = spamSnapshots acc + length fl
              \<and> totalSpamScore acc' = totalSpamScore acc + sum_list (map spamScore fl)
              \<and> allFoundStopWords acc' =
                  foldl track_stop_word (allFoundStopWords acc)
                    (concat (map (\<lambda>a. found (stopWords a)) fl)))"
  using assms
  by (auto simp: check_snapshot_def flagged_spam_def map_filter_simps
           split: prod.splits sum.splits if_splits)

lemma flagged_spam_Cons:
  "flagged_spam (x # xs) = flagged_spam [x] @ flagged_spam xs"
  by (simp add: flagged_spam_def map_filter_simps split: option.splits)

lemma for_snapshots_totals:
  assumes "for_snapshots rt client sw acc snaps w = (acc', w')"
  shows "let fl = flagged_spam (snapshot_analyses rt client sw snaps w) in
           spamSnapshots acc' = spamSnapshots acc + length fl
           \<and> totalSpamScore acc' = totalSpamScore acc + sum_list (map spamScore fl)
           \<and> allFoundStopWords acc' =
               foldl track_stop_word (allFoundStopWords acc)
                 (concat (map (\<lambda>a. found (stopWords a)) fl))"
  using assms
proof (induction snaps arbitrary: acc w)
  case Nil
  then show ?case by (simp add: flagged_spam_def map_filter_simps)
next
  case (Cons snap snaps)
  obtain acc1 w1 where step: "check_snapshot rt client sw acc snap w = (acc1, w1)"
    by (cases "check_snapshot rt client sw acc snap w")
  with Cons.prems have rest: "for_snapshots rt client sw acc1 snaps w1 = (acc', w')" by simp
  from check_snapshot_totals [OF step] obtain out where
    out: "(out, w1) = (case getSnapshotHtml client snap w of
                     (Inl e, w1) \<Rightarrow> (Inl e, w1)
                   | (Inr html, w1) \<Rightarrow> (analyzeHtmlForSpam rt html sw, w1))"
    and one: "let fl = flagged_spam [(snap, out)] in
              spamSnapshots acc1 = spamSnapshots acc + length fl
              \<and> totalSpamScore acc1 = totalSpamScore acc + sum_list (map spamScore fl)
              \<and> allFoundStopWords acc1 =
                  foldl track_stop_word (allFoundStopWords acc)
                    (concat (map (\<lambda>a. found (stopWords a)) fl))"
    by blast
  from out have sa: "snapshot_analyses rt client sw (snap # snaps) w
      = (snap, out) # snapshot_analyses rt client sw snaps w1"
    by (auto split: prod.splits sum.splits)
  define f1 where "f1 = flagged_spam [(snap, out)]"
  define f2 where "f2 = flagged_spam (snapshot_analyses rt client sw snaps w1)"
  have fl: "flagged_spam (snapshot_analyses rt client sw (snap # snaps) w) = f1 @ f2"
    unfolding sa f1_def f2_def by (rule flagged_spam_Cons)
  from Cons.IH [OF rest] one show ?case
    unfolding fl Let_def f1_def [symmetric] f2_def [symmetric] by simp
qed

lemma analyzeDomainForSpam_analysed:
  assumes "getSnapshots client domain maxSnapshots w = (Inr snaps, w1)" and "snaps \<noteq> []"
  shows "\<exists>acc w2.
           analyzeDomainForSpam rt client domain sw maxSnapshots w
             = (Inr (analysis_result domain (length snaps) acc), w2)
         \<and> spamSnapshots acc = length (flagged_spam (snapshot_analyses rt client sw snaps w1))
         \<and> totalSpamScore acc
             = sum_list (map spamScore (flagged_spam (snapshot_analyses rt client sw snaps w1)))
         \<and> allFoundStopWords acc
             = foldl track_stop_word []
                 (concat (map (\<lambda>a. found (stopWords a))
                    (flagged_spam (snapshot_analyses rt client sw snaps w1))))"
proof -
  define init where "init = \<lparr>spamSnapshots = 0, totalSpamScore = 0,
                      allFoundStopWords = [], firstSpamDate = None\<rparr>"
  obtain acc w2 where loop: "for_snapshots rt client sw init snaps w1 = (acc, w2)"
    by (cases "for_snapshots rt client sw init snaps w1")
  from assms loop
  have "analyzeDomainForSpam rt client domain sw maxSnapshots w
          = (Inr (analysis_result domain (length snaps) acc), w2)"
    by (simp add: analyzeDomainForSpam_def init_def)
  moreover from for_snapshots_totals [OF loop]
  have "spamSnapshots acc = length (flagged_spam (snapshot_analyses rt client sw snaps w1))
      \<and> totalSpamScore acc
           = sum_list (map spamScore (flagged_spam (snapshot_analyses rt client sw snaps w1)))
      \<and> allFoundStopWords acc
           = foldl track_stop_word []
               (concat (map (\<lambda>a. found (stopWords a))
                  (flagged_spam (snapshot_analyses rt client sw snaps w1))))"
    by (simp add: Let_def init_def)
  ultimately show ?thesis by blast
qed

lemma analyzeDomainForSpam_no_snapshots:
  assumes "getSnapshots client domain maxSnapshots w = (Inr [], w1)"
  shows "analyzeDomainForSpam rt client domain sw maxSnapshots w
           = (Inr (no_snapshots_result domain), w1)"
  using assms by (simp add: analyzeDomainForSpam_def)

lemma analyzeDomainForSpam_fetch_fails:
  assumes "getSnapshots client domain maxSnapshots w = (Inl e, w1)"
  shows "analyzeDomainForSpam rt client domain sw maxSnapshots w
           = (Inl (Error (''Domain analysis failed: '' @ message e)), w1)"
  using assms by (simp add: analyzeDomainForSpam_def)

lemma analyzeDomainForSpam_cases:
  assumes "analyzeDomainForSpam rt client domain sw maxSnapshots w = (Inr r, w2)"
  shows "r = no_snapshots_result domain
         \<or> (\<exists>n acc. r = analysis_result domain n acc
               \<and> distinct (map fst (allFoundStopWords acc)))"
proof -
  obtain out w1 where g: "getSnapshots client domain maxSnapshots w = (out, w1)"
    by (cases "getSnapshots client domain maxSnapshots w")
  show ?thesis
  proof (cases out)
    case (Inl e)
    with g assms show ?thesis by (simp add: analyzeDomainForSpam_def)
  next
    case (Inr snaps)
    show ?thesis
    proof (cases "snaps = []")
      case True
      with g Inr assms show ?thesis by (simp add: analyzeDomainForSpam_def)
    next
      case False
      from analyzeDomainForSpam_analysed [OF g [unfolded Inr] False, of rt sw] assms
      obtain acc where "r = analysis_result domain (length snaps) acc"
        and "allFoundStopWords acc
             = foldl track_stop_word []
                 (concat (map (\<lambda>a. found (stopWords a))
                    (flagged_spam (snapshot_analyses rt client sw snaps w1))))"
        by auto
      moreover have "distinct (map fst (foldl track_stop_word []
                 (concat (map (\<lambda>a. found (stopWords a))
                    (flagged_spam (snapshot_analyses rt client sw snaps w1))))))"
        by (rule foldl_track_distinct) simp
      ultimately have "r = analysis_result domain (length snaps) acc
                       \<and> distinct (map fst (allFoundStopWords acc))"
        by simp
      then show ?thesis by blast
    qed
  qed
qed

lemma get_prop_analysis_result:
  "get_prop (analysis_result domain n acc) ''domain'' = Some (Str domain)"
  "get_prop (analysis_result domain n acc) ''snapshotsChecked'' = Some (Num (of_nat n))"
  "get_prop (analysis_result domain n acc) ''spamSnapshots'' = Some (Num (of_nat (spamSnapshots acc)))"
  "get_prop (analysis_result domain n acc) ''spamPercentage''
     = Some (Num (Math_round (of_nat (spamSnapshots acc) / of_nat n * 100 * 100) / 100))"
  "get_prop (analysis_result domain n acc) ''avgSpamScore''
     = Some (Num (Math_round ((if 0 < spamSnapshots acc
                               then totalSpamScore acc / of_nat (spamSnapshots acc) else 0) * 100) / 100))"
  "get_prop (analysis_result domain n acc) ''spamDetected'' = Some (Bool (0 < spamSnapshots acc))"
  "get_prop (analysis_result domain n acc) ''totalStopWordsFound''
     = Some (Num (of_nat (length (allFoundStopWords acc))))"
  "get_prop (analysis_result domain n acc) ''stopWordsFound''
     = Some (Matches (sort_desc (map (\<lambda>(w, c). \<lparr>word = w, stop_word_match.count = c\<rparr>)
                                   (allFoundStopWords acc))))"
  "get_prop (analysis_result domain n acc) ''status''
     = Some (Str (if (50::rat) \<le> of_nat (spamSnapshots acc) / of_nat n * 100 then ''spam''
                  else if (0::rat) < of_nat (spamSnapshots acc) / of_nat n * 100 then ''suspicious''
                  else ''clean''))"
  by (simp_all add: get_prop_def analysis_result_def Let_def)

lemma get_prop_no_snapshots_result:
  "get_prop (no_snapshots_result domain) ''domain'' = Some (Str domain)"
  "get_prop (no_snapshots_result domain) ''snapshotsChecked'' = Some (Num 0)"
  "get_prop (no_snapshots_result domain) ''spamDetected'' = Some (Bool False)"
  "get_prop (no_snapshots_result domain) ''spamScore'' = Some (Num 0)"
  "get_prop (no_snapshots_result domain) ''totalStopWordsFound'' = Some (Num 0)"
  "get_prop (no_snapshots_result domain) ''stopWordsFound'' = Some (Matches [])"
  "get_prop (no_snapshots_result domain) ''firstSpamDate'' = Some Null"
  "get_prop (no_snapshots_result domain) ''status'' = Some (Str ''no_snapshots'')"
  "get_prop (no_snapshots_result domain) ''spamSnapshots'' = None"
  "get_prop (no_snapshots_result domain) ''spamPercentage'' = None"
  "get_prop (no_snapshots_result domain) ''avgSpamScore'' = None"
  by (simp_all add: get_prop_def no_snapshots_result_def)



lemma stub_run_4:
  "analyzeDomainForSpam stub_runtime stub_client ''a.example'' [''buy'', ''casino''] 4 0 =
     (Inr [(''domain'', Str ''a.example''),
           (''snapshotsChecked'', Num 4),
           (''spamSnapshots'', Num 2),
           (''spamPercentage'', Num 50),
           (''avgSpamScore'', Num 75),
           (''spamDetected'', Bool True),
           (''totalStopWordsFound'', Num 2),
           (''stopWordsFound'', Matches [\<lparr>word = ''buy'', stop_word_match.count = 3\<rparr>,
                                         \<lparr>word = ''casino'', stop_word_match.count = 1\<rparr>]),
           (''firstSpamDate'', Str ''2021''),
           (''status'', Str ''spam'')], 5)"
  by code_simp






text \<open>
  The status is derived from the percentage before it is rounded, and the result carries
  the rounded one: with 5000 of 10001 snapshots flagged the percentage is 49.995..., the
  status is \<^verbatim>\<open>suspicious\<close> and the property \<^verbatim>\<open>spamPercentage\<close> reads 50.
\<close>

lemma analysis_result_rounding_edge:
  "get_prop (analysis_result ''a.example'' 10001
       \<lparr>spamSnapshots = 5000, totalSpamScore = 5000, allFoundStopWords = [],
        firstSpamDate = None\<rparr>) ''spamPercentage'' = Some (Num 50)
   \<and> get_prop (analysis_result ''a.example'' 10001
       \<lparr>spamSnapshots = 5000, totalSpamScore = 5000, allFoundStopWords = [],
        firstSpamDate = None\<rparr>) ''status'' = Some (Str ''suspicious'')"
proof -
  have "\<lfloor>(5000::rat) / 10001 * 100 * 100 + 1 / 2\<rfloor> = 5000"
    by (rule floor_unique) simp_all
  then have "Math_round ((5000::rat) / 10001 * 100 * 100) / 100 = 50"
    by (simp add: Math_round_def)
  then show ?thesis
    by (simp add: get_prop_analysis_result)
qed





text \<open>
  Claim C10. In every result of the analysis of a domain \<^verbatim>\<open>totalStopWordsFound\<close> is
  the length of \<^verbatim>\<open>stopWordsFound\<close>, whose words are distinct: the number of distinct
  stop words accumulated, not the sum of their occurrences.
\<close>

theorem analyzeDomainForSpam_totalStopWordsFound:
  assumes "analyzeDomainForSpam rt client domain sw maxSnapshots w = (Inr r, w2)"
  shows "\<exists>ms. get_prop r ''stopWordsFound'' = Some (Matches ms)
            \<and> get_prop r ''totalStopWordsFound'' = Some (Num (of_nat (length ms)))
            \<and> distinct (map word ms)"
proof -
  from analyzeDomainForSpam_cases [OF assms]
  show ?thesis
  proof
    assume "r = no_snapshots_result domain"
    then show ?thesis by (simp add: get_prop_no_snapshots_result)
  next
    assume "\<exists>n acc. r = analysis_result domain n acc \<and> distinct (map fst (allFoundStopWords acc))"
    then obtain n acc where r: "r = analysis_result domain n acc"
      and d: "distinct (map fst (allFoundStopWords acc))" by blast
    have mw: "map word (map (\<lambda>(w, c). \<lparr>word = w, stop_word_match.count = c\<rparr>) m) = map fst m"
      for m :: "(string \<times> nat) list"
      by (induction m) auto
    have dd: "distinct (map word (sort_desc
                (map (\<lambda>(w, c). \<lparr>word = w, stop_word_match.count = c\<rparr>) (allFoundStopWords acc))))"
      unfolding distinct_sort_desc mw by (rule d)
    show ?thesis
      unfolding r
      by (rule exI [of _ "sort_desc
                (map (\<lambda>(w, c). \<lparr>word = w, stop_word_match.count = c\<rparr>) (allFoundStopWords acc))"])
         (simp only: get_prop_analysis_result length_sort_desc length_map dd simp_thms)
  qed
qed

theorem analyzeDomainForSpam_totalStopWordsFound_witness:
  "\<exists>r w2 ms. analyzeDomainForSpam stub_runtime stub_client ''a.example'' [''buy'', ''casino''] 4 0
                 = (Inr r, w2)
     \<and> get_prop r ''snapshotsChecked'' = Some (Num 4)
     \<and> get_prop r ''stopWordsFound'' = Some (Matches ms)
     \<and> get_prop r ''totalStopWordsFound'' = Some (Num 2)
     \<and> length ms = 2
     \<and> sum_list (map stop_word_match.count ms) = 4"
  using analyzeDomainForSpam_totalStopWordsFound [OF stub_run_4]
  by (simp add: stub_run_4 get_prop_def)

text \<open>
  Claim C4. For a domain without snapshots the analysis returns the result of lines 88 to
  97 (lemma \<open>analyzeDomainForSpam_no_snapshots\<close>): the status is
  \<^verbatim>\<open>no_snapshots\<close>, \<^verbatim>\<open>spamDetected\<close> is false, \<^verbatim>\<open>snapshotsChecked\<close> and
  \<^verbatim>\<open>totalStopWordsFound\<close> are 0, \<^verbatim>\<open>stopWordsFound\<close> is empty and
  \<^verbatim>\<open>firstSpamDate\<close> is \<^verbatim>\<open>null\<close>. It has a property \<^verbatim>\<open>spamScore\<close> that no
  other result has, and it has no \<^verbatim>\<open>spamSnapshots\<close>, \<^verbatim>\<open>spamPercentage\<close> or
  \<^verbatim>\<open>avgSpamScore\<close>, which the result of a run over snapshots has: reading them
  gives \<^verbatim>\<open>undefined\<close>, not 0.
\<close>

theorem analyzeDomainForSpam_no_snapshots_shape:
  "analyzeDomainForSpam stub_runtime stub_client ''new.example'' [''buy'', ''casino''] 10 0 =
     (Inr [(''domain'', Str ''new.example''),
           (''snapshotsChecked'', Num 0),
           (''spamDetected'', Bool False),
           (''spamScore'', Num 0),
           (''totalStopWordsFound'', Num 0),
           (''stopWordsFound'', Matches []),
           (''firstSpamDate'', Null),
           (''status'', Str ''no_snapshots'')], 1)
   \<and> get_prop (no_snapshots_result ''new.example'') ''status'' = Some (Str ''no_snapshots'')
   \<and> get_prop (no_snapshots_result ''new.example'') ''spamDetected'' = Some (Bool False)
   \<and> get_prop (no_snapshots_result ''new.example'') ''spamSnapshots'' = None
   \<and> get_prop (no_snapshots_result ''new.example'') ''spamPercentage'' = None
   \<and> get_prop (no_snapshots_result ''new.example'') ''avgSpamScore'' = None"
proof -
  have "getSnapshots stub_client ''new.example'' 10 0 = (Inr [], 1)"
    by (simp add: stub_client_def)
  from analyzeDomainForSpam_no_snapshots [OF this, of stub_runtime "[''buy'', ''casino'']"]
  show ?thesis
    by (simp add: get_prop_no_snapshots_result) (simp add: no_snapshots_result_def)
qed

section \<open>Properties of the batch analyzer\<close>





end
